theory Spec2Isabelle
  imports Complex_Main
begin

section \<open>Errors and dynamically typed values\<close>

text \<open>
  Go errors are values.  \<open>NotAString\<close>, \<open>UnexpectedName\<close> and \<open>noConfig\<close> are the three
  error variables the repository declares; \<open>ExitError\<close> is \<open>*exec.ExitError\<close> with its
  captured standard error; \<open>LibError\<close> stands for any other error that a library call
  (template engine, \<open>os.Stat\<close>, \<open>os.Open\<close>, the YAML decoder, ...) hands back;
  \<open>NilDereference\<close> is the run-time panic of a method call through a nil pointer.
\<close>

datatype error =
    NotAString
  | UnexpectedName
  | noConfig
  | ExitError string
  | LibError string
  | NilDereference

text \<open>
  A value of type \<open>interface{}\<close> as it occurs in a pipeline context.  The YAML decoder
  produces \<open>nil\<close>, \<open>bool\<close>, \<open>int\<close>, \<open>float64\<close>, \<open>string\<close>, sequences and mappings;
  \<open>Variable.Eval\<close> produces \<open>bool\<close>, \<open>int64\<close>, \<open>float64\<close> and \<open>string\<close>.  Go keeps
  \<open>int\<close> and \<open>int64\<close> apart as dynamic types, hence the two constructors.  The type
  \<open>'f\<close> stands for \<open>float64\<close>, which is not interpreted here.
\<close>

datatype 'f val =
    VNil
  | VBool bool
  | VInt int
  | VInt64 int
  | VFloat 'f
  | VStr string
  | VSeq "'f val list"
  | VMap "('f val \<times> 'f val) list"

type_synonym 'f ctx = "string \<rightharpoonup> 'f val"

section \<open>The command tokenizer of \<open>Step.Exec\<close> (pipeline.go, lines 138--194)\<close>

text \<open>
  The loop reads the rendered command rune by rune with \<open>buf.ReadRune()\<close>.  A rune is a
  Unicode code point; the input of the model is the sequence of runes that the
  successive \<open>ReadRune\<close> calls deliver (\<open>U+FFFD\<close> for every malformed byte).
\<close>

type_synonym rune = nat

datatype lexstate = DEFAULT | IN_SQ | IN_DQ | ESCAPED

text \<open>The tokenizer's variables \<open>state\<close>, \<open>acc\<close> and \<open>split\<close>.\<close>

record lexer =
  state :: lexstate
  acc :: "rune list"
  split :: "rune list list"

text \<open>The closure \<open>wrap\<close> (lines 148--153).\<close>

definition wrap :: "lexer \<Rightarrow> lexer" where
  "wrap l = (if 0 \<noteq> length (acc l)
             then l\<lparr>split := split l @ [acc l], acc := []\<rparr>
             else l\<lparr>acc := []\<rparr>)"

definition WriteRune :: "rune \<Rightarrow> lexer \<Rightarrow> lexer" where
  "WriteRune r l = l\<lparr>acc := acc l @ [r]\<rparr>"

text \<open>
  One pass through the loop body (lines 155--188) for the rune \<open>r\<close>.  The runes are
  written as their code points: space 32, newline 10, tab 9, carriage return 13,
  single quote 39, double quote 34, backslash 92, \<open>U+FFFD\<close> 65533.
\<close>

definition lex_rune :: "lexer \<Rightarrow> rune \<Rightarrow> lexer" where
  "lex_rune l r =
     (if r = 65533 \<or> r = 0 then l
      else case state l of
        DEFAULT \<Rightarrow>
          (if r = 32 \<or> r = 10 \<or> r = 9 \<or> r = 13 then wrap l
           else if r = 39 then l\<lparr>state := IN_SQ\<rparr>
           else if r = 34 then l\<lparr>state := IN_DQ\<rparr>
           else if r = 92 then l\<lparr>state := ESCAPED\<rparr>
           else WriteRune r l)
      | IN_SQ \<Rightarrow> (if r = 39 then wrap l else WriteRune r l)
      | IN_DQ \<Rightarrow> (if r = 34 then wrap l else WriteRune r l)
      | ESCAPED \<Rightarrow> WriteRune r l)"

text \<open>
  The loop \<open>for ; nil == err; r, _, err = buf.ReadRune()\<close>: the body first runs with the
  zero value of \<open>r\<close>, then once for each rune read.  \<open>bytes.Buffer.ReadRune\<close> fails with
  \<open>io.EOF\<close> only, so the loop is always left through the \<open>else\<close> branch of line 192,
  which calls \<open>wrap\<close> a last time.
\<close>

fun lex_loop :: "lexer \<Rightarrow> rune list \<Rightarrow> lexer" where
  "lex_loop l [] = l"
| "lex_loop l (r # rs) = lex_loop (lex_rune l r) rs"

definition tokenize :: "rune list \<Rightarrow> rune list list" where
  "tokenize rs =
     split (wrap (lex_loop \<lparr>state = DEFAULT, acc = [], split = []\<rparr> (0 # rs)))"

text \<open>The runes of an ASCII text: one rune per byte.\<close>

definition runes :: "string \<Rightarrow> rune list" where
  "runes s = map of_char s"

section \<open>Library calls taken as parameters\<close>

text \<open>
  A compiled \<open>*template.Template\<close> is represented by what \<open>Execute\<close> does with it: the
  rendered text for a context, or an error.
\<close>

type_synonym 'f template = "'f ctx \<Rightarrow> error + string"

text \<open>
  The calls into the Go standard library and into third-party packages whose results
  the code depends on:
  \<^item> \<open>tt_Parse name text\<close> is \<open>tt.New(name).Delims("((", "))").Parse(text)\<close>;
  \<^item> \<open>ParseFloat s\<close> is \<open>strconv.ParseFloat(s, 64)\<close>;
  \<^item> \<open>ReadRunes s\<close> is the sequence of runes that \<open>ReadRune\<close> decodes from a buffer
    holding \<open>s\<close>, and \<open>String rs\<close> the text of a buffer into which \<open>rs\<close> were written
    with \<open>WriteRune\<close>;
  \<^item> \<open>Output cmd args\<close> is \<open>exec.Command(cmd, args...).Output()\<close>.
\<close>

record 'f lib =
  tt_Parse :: "string \<Rightarrow> string \<Rightarrow> error + 'f template"
  ParseFloat :: "string \<Rightarrow> 'f option"
  ReadRunes :: "string \<Rightarrow> rune list"
  String :: "rune list \<Rightarrow> string"
  Output :: "string \<Rightarrow> string list \<Rightarrow> string \<times> error option"

text \<open>
  \<open>strconv.ParseBool\<close> accepts exactly twelve spellings.
\<close>

definition ParseBool :: "string \<Rightarrow> bool option" where
  "ParseBool str =
     (if str \<in> set [''1'', ''t'', ''T'', ''true'', ''TRUE'', ''True''] then Some True
      else if str \<in> set [''0'', ''f'', ''F'', ''false'', ''FALSE'', ''False''] then Some False
      else None)"

text \<open>
  \<open>strconv.ParseInt(s, 10, 64)\<close>: an optional sign, then one or more decimal digits
  (no underscores in base 10), and the value must lie in the range of \<open>int64\<close>.
\<close>

definition isDigit :: "char \<Rightarrow> bool" where
  "isDigit c = (48 \<le> (of_char c :: nat) \<and> (of_char c :: nat) \<le> 57)"

definition ParseUint :: "string \<Rightarrow> nat option" where
  "ParseUint s =
     (if s = [] \<or> \<not> list_all isDigit s then None
      else Some (foldl (\<lambda>n c. 10 * n + (of_char c - 48)) 0 s))"

definition ParseInt :: "string \<Rightarrow> int option" where
  "ParseInt s =
     (if s = [] then None
      else let neg = (hd s = CHR ''-'');
               s' = (if hd s = CHR ''+'' \<or> hd s = CHR ''-'' then tl s else s)
           in case ParseUint s' of
                None \<Rightarrow> None
              | Some un \<Rightarrow>
                  if \<not> neg \<and> un \<ge> 2 ^ 63 then None
                  else if neg \<and> un > 2 ^ 63 then None
                  else Some (if neg then - int un else int un))"

section \<open>Variables (pipeline.go, lines 20--78)\<close>

record 'f Variable =
  Name :: string
  Value :: "'f val"
  expression :: "'f template option"

text \<open>
  \<open>Variables.UnmarshalYAML\<close>: one Variable for each entry of the YAML mapping, in
  order; a key that is not a string is the error \<open>NotAString\<close>.  The unexported field
  \<open>expression\<close> starts as nil.
\<close>

fun Variables_UnmarshalYAML :: "('f val \<times> 'f val) list \<Rightarrow> error + 'f Variable list" where
  "Variables_UnmarshalYAML [] = Inr []"
| "Variables_UnmarshalYAML ((VStr k, x) # s) =
     (case Variables_UnmarshalYAML s of
        Inl err \<Rightarrow> Inl err
      | Inr vars \<Rightarrow> Inr (\<lparr>Name = k, Value = x, expression = None\<rparr> # vars))"
| "Variables_UnmarshalYAML (_ # s) = Inl NotAString"

text \<open>
  \<open>Variable.Prepare\<close> works through a pointer: the model returns the Variable as it is
  afterwards together with the error (\<open>None\<close> for nil).
\<close>

definition Variable_Prepare :: "'f lib \<Rightarrow> 'f Variable \<Rightarrow> 'f Variable \<times> error option" where
  "Variable_Prepare L v =
     (case Value v of
        VStr val \<Rightarrow>
          (case tt_Parse L (Name v) val of
             Inl err \<Rightarrow> (v, Some err)
           | Inr t \<Rightarrow> (v\<lparr>expression := Some t\<rparr>, None))
      | _ \<Rightarrow> (v, None))"

definition Variable_Eval :: "'f lib \<Rightarrow> 'f Variable \<Rightarrow> 'f ctx \<Rightarrow> error + 'f val" where
  "Variable_Eval L v ctx =
     (case expression v of
        None \<Rightarrow> Inr (Value v)
      | Some t \<Rightarrow>
          (case t ctx of
             Inl err \<Rightarrow> Inl err
           | Inr str \<Rightarrow>
               (case ParseBool str of
                  Some b \<Rightarrow> Inr (VBool b)
                | None \<Rightarrow>
                    (case ParseInt str of
                       Some i \<Rightarrow> Inr (VInt64 i)
                     | None \<Rightarrow>
                         (case ParseFloat L str of
                            Some f \<Rightarrow> Inr (VFloat f)
                          | None \<Rightarrow> Inr (VStr str))))))"

section \<open>Steps (pipeline.go, lines 80--208)\<close>

record 'f Step =
  Name :: string
  Variables :: "'f Variable list"
  Command :: string
  command :: "'f template option"

text \<open>
  The loop of \<open>Step.Prepare\<close> and \<open>Pipeline.Prepare\<close> over the Variables: it prepares
  them in place and stops at the first error, leaving the rest untouched.
\<close>

fun Variables_Prepare :: "'f lib \<Rightarrow> 'f Variable list \<Rightarrow> 'f Variable list \<times> error option" where
  "Variables_Prepare L [] = ([], None)"
| "Variables_Prepare L (v # vs) =
     (case Variable_Prepare L v of
        (v', Some err) \<Rightarrow> (v' # vs, Some err)
      | (v', None) \<Rightarrow>
          (case Variables_Prepare L vs of (vs', r) \<Rightarrow> (v' # vs', r)))"

definition Step_Prepare :: "'f lib \<Rightarrow> 'f Step \<Rightarrow> 'f Step \<times> error option" where
  "Step_Prepare L s =
     (case Variables_Prepare L (Variables s) of
        (vs, Some err) \<Rightarrow> (s\<lparr>Variables := vs\<rparr>, Some err)
      | (vs, None) \<Rightarrow>
          (case tt_Parse L (Step.Name s) (Command s) of
             Inl err \<Rightarrow> (s\<lparr>Variables := vs\<rparr>, Some err)
           | Inr c \<Rightarrow> (s\<lparr>Variables := vs, command := Some c\<rparr>, None)))"

text \<open>
  The second loop of \<open>Step.EvalVariables\<close> (lines 116--122): every Variable is
  evaluated against \<open>ctx\<close>, the map the caller passed in, and stored in the copy
  \<open>nctx\<close>.
\<close>

fun Step_eval_loop :: "'f lib \<Rightarrow> 'f ctx \<Rightarrow> 'f Variable list \<Rightarrow> 'f ctx \<Rightarrow> error + 'f ctx" where
  "Step_eval_loop L ctx [] nctx = Inr nctx"
| "Step_eval_loop L ctx (v # vs) nctx =
     (case Variable_Eval L v ctx of
        Inr val \<Rightarrow> Step_eval_loop L ctx vs (nctx(Variable.Name v \<mapsto> val))
      | Inl err \<Rightarrow> Inl err)"

text \<open>
  \<open>Step.EvalVariables\<close> mutates the map \<open>ctx\<close> it is given: the model returns the map as
  it is afterwards, and the function's own result.  The first loop copies \<open>ctx\<close> into
  \<open>nctx\<close>; the last loop (lines 123--125) assigns \<open>nctx[k]\<close> to every key \<open>k\<close> of \<open>ctx\<close>.
\<close>

definition Step_EvalVariables :: "'f lib \<Rightarrow> 'f Step \<Rightarrow> 'f ctx \<Rightarrow> 'f ctx \<times> (error + 'f ctx)" where
  "Step_EvalVariables L s ctx =
     (case Step_eval_loop L ctx (Variables s) ctx of
        Inl err \<Rightarrow> (ctx, Inl err)
      | Inr nctx \<Rightarrow> ((\<lambda>k. if ctx k = None then None else nctx k), Inr nctx))"

text \<open>
  The part of \<open>Step.Exec\<close> after the Variables (lines 134--207): render the command
  against \<open>nctx\<close>, tokenize, run.  A Step whose \<open>command\<close> is nil makes \<open>Execute\<close>
  dereference a nil pointer.
\<close>

definition Step_run :: "'f lib \<Rightarrow> 'f Step \<Rightarrow> 'f ctx \<Rightarrow> error option \<times> string" where
  "Step_run L s nctx =
     (case command s of
        None \<Rightarrow> (Some NilDereference, [])
      | Some c \<Rightarrow>
          (case c nctx of
             Inl err \<Rightarrow> (Some err, [])
           | Inr buf \<Rightarrow>
               (let split = map (String L) (tokenize (ReadRunes L buf));
                    cmd = (if 0 \<noteq> length split then hd split else []);
                    args = (if 0 \<noteq> length split then tl split else [])
                in case Output L cmd args of
                     (out, Some (ExitError stderr)) \<Rightarrow>
                       (Some (ExitError stderr), out @ [CHR 0x0A] @ stderr)
                   | (out, err) \<Rightarrow> (err, out))))"

definition Step_Exec :: "'f lib \<Rightarrow> 'f Step \<Rightarrow> 'f ctx \<Rightarrow> 'f ctx \<times> (error option \<times> string)" where
  "Step_Exec L s ctx =
     (case Step_EvalVariables L s ctx of
        (ctx', Inl err) \<Rightarrow> (ctx', (Some err, []))
      | (ctx', Inr nctx) \<Rightarrow> (ctx', Step_run L s nctx))"

section \<open>Pipelines (pipeline.go, lines 210--252)\<close>

record 'f Pipeline =
  Variables :: "'f Variable list"
  Steps :: "'f Step list"

fun Steps_Prepare :: "'f lib \<Rightarrow> 'f Step list \<Rightarrow> 'f Step list \<times> error option" where
  "Steps_Prepare L [] = ([], None)"
| "Steps_Prepare L (s # ss) =
     (case Step_Prepare L s of
        (s', Some err) \<Rightarrow> (s' # ss, Some err)
      | (s', None) \<Rightarrow>
          (case Steps_Prepare L ss of (ss', r) \<Rightarrow> (s' # ss', r)))"

definition Pipeline_Prepare :: "'f lib \<Rightarrow> 'f Pipeline \<Rightarrow> 'f Pipeline \<times> error option" where
  "Pipeline_Prepare L p =
     (case Variables_Prepare L (Pipeline.Variables p) of
        (vs, Some err) \<Rightarrow> (p\<lparr>Pipeline.Variables := vs\<rparr>, Some err)
      | (vs, None) \<Rightarrow>
          (case Steps_Prepare L (Steps p) of
             (ss, r) \<Rightarrow> (p\<lparr>Pipeline.Variables := vs, Steps := ss\<rparr>, r)))"

text \<open>
  \<open>Pipeline.EvalVariables\<close> writes every value straight into \<open>ctx\<close>, so a later
  Variable sees the earlier ones; what was written before an error stays written.
\<close>

fun Pipeline_eval_loop :: "'f lib \<Rightarrow> 'f Variable list \<Rightarrow> 'f ctx \<Rightarrow> 'f ctx \<times> error option" where
  "Pipeline_eval_loop L [] ctx = (ctx, None)"
| "Pipeline_eval_loop L (v # vs) ctx =
     (case Variable_Eval L v ctx of
        Inr val \<Rightarrow> Pipeline_eval_loop L vs (ctx(Variable.Name v \<mapsto> val))
      | Inl err \<Rightarrow> (ctx, Some err))"

definition Pipeline_EvalVariables :: "'f lib \<Rightarrow> 'f Pipeline \<Rightarrow> 'f ctx \<Rightarrow> 'f ctx \<times> error option" where
  "Pipeline_EvalVariables L p ctx = Pipeline_eval_loop L (Pipeline.Variables p) ctx"

fun Steps_Exec :: "'f lib \<Rightarrow> 'f Step list \<Rightarrow> 'f ctx \<Rightarrow> 'f ctx \<times> (error option \<times> string)" where
  "Steps_Exec L [] ctx = (ctx, (None, []))"
| "Steps_Exec L (s # ss) ctx =
     (case Step_Exec L s ctx of
        (ctx', (Some err, str)) \<Rightarrow> (ctx', (Some err, str))
      | (ctx', (None, str)) \<Rightarrow> Steps_Exec L ss ctx')"

definition Pipeline_Exec :: "'f lib \<Rightarrow> 'f Pipeline \<Rightarrow> 'f ctx \<Rightarrow> 'f ctx \<times> (error option \<times> string)" where
  "Pipeline_Exec L p ctx =
     (case Pipeline_EvalVariables L p ctx of
        (vars, Some err) \<Rightarrow> (vars, (Some err, []))
      | (vars, None) \<Rightarrow> Steps_Exec L (Steps p) vars)"

section \<open>File names (viirs-watcher.go, lines 67--75, and the path helpers it calls)\<close>

text \<open>
  \<open>strings.Split(s, "_")\<close> with a one-character separator: one more piece than there
  are separators, never an empty list.
\<close>

fun Split :: "char \<Rightarrow> string \<Rightarrow> string list" where
  "Split sep [] = [ [] ]"
| "Split sep (c # cs) =
     (if c = sep then [] # Split sep cs
      else case Split sep cs of
             piece # pieces \<Rightarrow> (c # piece) # pieces
           | [] \<Rightarrow> [ [c] ])"

fun Join :: "string list \<Rightarrow> string \<Rightarrow> string" where
  "Join [] sep = []"
| "Join [a] sep = a"
| "Join (a # b # r) sep = a @ sep @ Join (b # r) sep"

definition HasPrefix :: "string \<Rightarrow> string \<Rightarrow> bool" where
  "HasPrefix s pre = (length pre \<le> length s \<and> take (length pre) s = pre)"

definition IsPathSeparator :: "char \<Rightarrow> bool" where
  "IsPathSeparator c = (c = CHR ''/'')"

text \<open>
  \<open>filepath.Base\<close> on Unix: strip trailing separators, keep what follows the last
  separator; the empty path is \<open>.\<close> and a path of separators only is \<open>/\<close>.
\<close>

definition Base :: "string \<Rightarrow> string" where
  "Base path =
     (if path = [] then ''.''
      else let stripped = rev (dropWhile IsPathSeparator (rev path));
               last_elem = rev (takeWhile (\<lambda>c. \<not> IsPathSeparator c) (rev stripped))
           in if last_elem = [] then ''/'' else last_elem)"

text \<open>
  \<open>filepath.Ext\<close>: scanning from the end up to the last separator, the suffix that
  starts at the first dot met.  The argument of \<open>Ext_scan\<close> is the path reversed, and
  the accumulator is what has been passed over.
\<close>

fun Ext_scan :: "string \<Rightarrow> string \<Rightarrow> string" where
  "Ext_scan [] passed = []"
| "Ext_scan (c # cs) passed =
     (if IsPathSeparator c then []
      else if c = CHR ''.'' then c # passed
      else Ext_scan cs (c # passed))"

definition Ext :: "string \<Rightarrow> string" where
  "Ext path = Ext_scan (rev path) []"

text \<open>\<open>filepath.Split\<close>: the directory is everything up to and including the last separator.\<close>

definition SplitPath :: "string \<Rightarrow> string \<times> string" where
  "SplitPath path =
     (rev (dropWhile (\<lambda>c. \<not> IsPathSeparator c) (rev path)),
      rev (takeWhile (\<lambda>c. \<not> IsPathSeparator c) (rev path)))"

definition getId :: "string \<Rightarrow> error + string" where
  "getId file =
     (let name = Base file;
          parts = Split (CHR ''_'') name
      in if length parts < 6 then Inl UnexpectedName
         else Inr (Join (take 4 (drop 1 parts)) ''_''))"

section \<open>Files and groups (viirs-watcher.go, lines 103--132)\<close>

text \<open>
  A \<open>time.Time\<close> is an instant, counted in nanoseconds from the Unix epoch; \<open>After\<close> and
  \<open>Before\<close> compare instants.  The zero \<open>time.Time\<close> is the first of January of the
  year 1.  Sizes are \<open>int64\<close>; the code only compares them.
\<close>

type_synonym Time = int

definition After :: "Time \<Rightarrow> Time \<Rightarrow> bool" where
  "After t u = (t > u)"

definition Before :: "Time \<Rightarrow> Time \<Rightarrow> bool" where
  "Before t u = (t < u)"

definition zeroTime :: Time where
  "zeroTime = - 62135596800 * 1000000000"

text \<open>What the code reads from an \<open>os.FileInfo\<close>.\<close>

record FileInfo =
  Name :: string
  Size :: int
  ModTime :: Time

record File =
  Prefix :: string
  Name :: string
  Fullpath :: string
  Size :: int
  LastModified :: Time

text \<open>
  \<open>Files\<close> is a Go map from file name to \<open>*File\<close>.  It is kept as an association list
  with one entry for each name, in the order of insertion, so that the loop of
  \<open>AnyChanged\<close> has an order to follow; Go leaves the order of a map's iteration open.
  \<open>RequiredFound\<close> is an \<open>int\<close> that is only ever incremented by one for each entry
  added to \<open>Files\<close>, so it stays far from the end of its range.
\<close>

record FileGroup =
  Files :: "(string \<times> File) list"
  LastModified :: Time
  Path :: string
  Id :: string
  RequiredFound :: int
  HasNight :: bool

text \<open>
  \<open>AnyChanged\<close> returns a pair \<open>(bool, error)\<close>.  Its parameter \<open>stat\<close> is \<open>os.Stat\<close> on
  the file system as it is at the time of the call.
\<close>

fun AnyChanged_loop :: "(string \<Rightarrow> error + FileInfo) \<Rightarrow> File list \<Rightarrow> bool \<times> error option" where
  "AnyChanged_loop stat [] = (False, None)"
| "AnyChanged_loop stat (f # fs) =
     (case stat (Fullpath f) of
        Inl err \<Rightarrow> (False, Some err)
      | Inr i \<Rightarrow>
          if After (ModTime i) (File.LastModified f) \<or> FileInfo.Size i > File.Size f
          then (True, None)
          else AnyChanged_loop stat fs)"

definition AnyChanged :: "(string \<Rightarrow> error + FileInfo) \<Rightarrow> FileGroup \<Rightarrow> bool \<times> error option" where
  "AnyChanged stat fg = AnyChanged_loop stat (map snd (Files fg))"

section \<open>The watcher (viirs-watcher.go, lines 157--265)\<close>

text \<open>
  \<open>found\<close> and \<open>ready\<close> are maps from id to \<open>*FileGroup\<close>.  A group is allocated in one
  place only (line 216), under its key in \<open>found\<close>, and \<open>found\<close> never loses or moves
  an entry; so the key under which a group sits in \<open>found\<close> serves as its address.
  \<open>found\<close> maps a key to the group's current contents, \<open>ready\<close> maps a key to the
  address of the group it points to.
\<close>

record Watcher =
  root :: string
  delay :: int
  required :: "string list"
  found :: "string \<rightharpoonup> FileGroup"
  ready :: "string \<rightharpoonup> string"

definition NewWatcher :: "string \<Rightarrow> string list \<Rightarrow> int \<Rightarrow> Watcher" where
  "NewWatcher root' required' delay' =
     \<lparr>root = root',
      delay = (if 0 = delay' then 30 * 1000000000 else delay'),
      required = required',
      found = Map.empty,
      ready = Map.empty\<rparr>"

fun isRequired_loop :: "string list \<Rightarrow> string \<Rightarrow> bool \<times> string" where
  "isRequired_loop [] s = (False, [])"
| "isRequired_loop (r # rs) s = (if HasPrefix s r then (True, r) else isRequired_loop rs s)"

definition isRequired :: "Watcher \<Rightarrow> string \<Rightarrow> bool \<times> string" where
  "isRequired w s = isRequired_loop (required w) s"

text \<open>
  One call of the function that \<open>Watch\<close> hands to \<open>filepath.Walk\<close>: the path \<open>p\<close>, the
  \<open>os.FileInfo\<close> of the entry, the error \<open>Walk\<close> had with it, and \<open>os.Stat\<close> on the file
  system as it is during this call (the fields \<open>v_p\<close>, \<open>v_inf\<close>, \<open>v_err\<close> are the
  parameters \<open>p\<close>, \<open>inf\<close>, \<open>err\<close>).
\<close>

record visit =
  v_p :: string
  v_inf :: FileInfo
  v_err :: "error option"
  v_Stat :: "string \<Rightarrow> error + FileInfo"

text \<open>
  Lines 223--238, for the group \<open>grp\<close> at address \<open>a\<close>: the new \<open>ready\<close> map and the
  groups handed to \<open>Process\<close> (none or one).
\<close>

definition claim ::
  "Time \<Rightarrow> (string \<Rightarrow> error + FileInfo) \<Rightarrow> string list \<Rightarrow> (string \<rightharpoonup> string) \<Rightarrow> string \<Rightarrow> FileGroup
     \<Rightarrow> (string \<rightharpoonup> string) \<times> FileGroup list" where
  "claim launchTime stat req rdy a grp =
     (if int (length req) = RequiredFound grp then
        (case AnyChanged stat grp of
           (changed, Some e) \<Rightarrow> (rdy, [])
         | (changed, None) \<Rightarrow>
             if \<not> changed
             then (rdy(Id grp \<mapsto> a),
                   if After (FileGroup.LastModified grp) launchTime then [grp] else [])
             else (rdy, []))
      else (rdy, []))"

text \<open>Lines 240--242.\<close>

definition touch :: "FileInfo \<Rightarrow> FileGroup \<Rightarrow> FileGroup" where
  "touch i grp =
     (if After (ModTime i) (FileGroup.LastModified grp)
      then grp\<lparr>FileGroup.LastModified := ModTime i\<rparr>
      else grp)"

text \<open>Lines 244--259.\<close>

definition register :: "string \<Rightarrow> FileInfo \<Rightarrow> FileGroup \<Rightarrow> FileGroup" where
  "register path i grp =
     (case map_of (Files grp) (FileInfo.Name i) of
        None \<Rightarrow>
          grp\<lparr>Files := Files grp @
                 [(FileInfo.Name i,
                   \<lparr>Prefix = hd (Split (CHR ''_'') (FileInfo.Name i)),
                    Name = FileInfo.Name i,
                    Fullpath = path,
                    Size = FileInfo.Size i,
                    LastModified = ModTime i\<rparr>)],
               RequiredFound := RequiredFound grp + 1\<rparr>
      | Some f \<Rightarrow>
          grp\<lparr>Files :=
                 map (\<lambda>(k, f). if k = FileInfo.Name i
                                then (k, f\<lparr>File.LastModified := ModTime i,
                                           File.Size := FileInfo.Size i\<rparr>)
                                else (k, f))
                     (Files grp)\<rparr>)"

text \<open>
  The function literal of lines 191--262.  It returns the watcher as it is afterwards,
  the error it hands back to \<open>Walk\<close>, and the groups it passed to \<open>Process\<close>.
\<close>

definition WalkFunc :: "Time \<Rightarrow> Watcher \<Rightarrow> visit \<Rightarrow> Watcher \<times> error option \<times> FileGroup list" where
  "WalkFunc launchTime w v =
     (case v_err v of
        Some e \<Rightarrow> (w, Some e, [])
      | None \<Rightarrow>
          let name = FileInfo.Name (v_inf v) in
          if ''.h5'' \<noteq> Ext (v_p v) then (w, None, [])
          else if \<not> fst (isRequired w name) then (w, None, [])
          else case getId name of
            Inl e \<Rightarrow> (w, None, [])
          | Inr id' \<Rightarrow>
              if ready w id' \<noteq> None then (w, None, [])
              else
                (case (case found w id' of
                         Some g \<Rightarrow> Some g
                       | None \<Rightarrow>
                           if Before (ModTime (v_inf v)) launchTime then None
                           else Some \<lparr>Files = [], LastModified = zeroTime,
                                      Path = fst (SplitPath (v_p v)), Id = id',
                                      RequiredFound = 0, HasNight = False\<rparr>) of
                   None \<Rightarrow> (w, None, [])
                 | Some grp \<Rightarrow>
                     (case claim launchTime (v_Stat v) (required w) (ready w) id' grp of
                        (rdy, calls) \<Rightarrow>
                          (let grp' = register (v_p v) (v_inf v) (touch (v_inf v) grp);
                               fnd = (found w)(id' \<mapsto> grp')
                           in (w\<lparr>found := fnd, ready := rdy\<rparr>, None, calls)))))"

text \<open>
  \<open>filepath.Walk\<close> calls the function for one entry after another and stops when it
  returns an error; \<open>Watch\<close> ignores what \<open>Walk\<close> returns.  The entries of a round, in
  the order \<open>Walk\<close> meets them, are a parameter.
\<close>

fun Walk :: "Time \<Rightarrow> Watcher \<Rightarrow> visit list \<Rightarrow> Watcher \<times> FileGroup list" where
  "Walk launchTime w [] = (w, [])"
| "Walk launchTime w (v # vs) =
     (case WalkFunc launchTime w v of
        (w', Some e, calls) \<Rightarrow> (w', calls)
      | (w', None, calls) \<Rightarrow>
          (case Walk launchTime w' vs of (w'', calls') \<Rightarrow> (w'', calls @ calls')))"

text \<open>
  \<open>Watch\<close> never returns: it walks, sleeps and walks again.  \<open>Watch\<close> below runs the
  rounds of a finite list and returns the watcher they leave together with all the
  groups passed to \<open>Process\<close>, in order; every state the loop reaches is the result for
  some list of rounds.
\<close>

fun Watch :: "Time \<Rightarrow> Watcher \<Rightarrow> visit list list \<Rightarrow> Watcher \<times> FileGroup list" where
  "Watch launchTime w [] = (w, [])"
| "Watch launchTime w (scan # scans) =
     (case Walk launchTime w scan of
        (w', calls) \<Rightarrow>
          (case Watch launchTime w' scans of (w'', calls') \<Rightarrow> (w'', calls @ calls')))"

section \<open>Start-up (viirs-watcher.go, lines 22--65 and 267--327)\<close>

text \<open>The struct \<open>cfg\<close> that the YAML document is decoded into.\<close>

record 'f config =
  Required :: "string list"
  Period :: string
  Prefix :: string
  WatchDir :: string
  SubDir :: string
  OutputDir :: string
  Version :: string
  Pipeline :: "'f Pipeline"

text \<open>The package-level variables that \<open>readConfig\<close> assigns.\<close>

record 'f globals =
  cfg :: "'f config"
  pipeline :: "'f Pipeline"
  watchDir :: string
  subDir :: string
  prefix :: string
  period :: int
  required :: "string list"
  OutputDir :: string
  version :: string

text \<open>
  What \<open>readConfig\<close> takes from outside: \<open>os.Args\<close>, the contents of a file
  (\<open>os.Open\<close> and \<open>ReadFrom\<close>), \<open>yaml.Unmarshal\<close> into \<open>cfg\<close>, \<open>time.ParseDuration\<close>.
\<close>

record 'f sys =
  Args :: "string list"
  ReadFile :: "string \<Rightarrow> error + string"
  Unmarshal :: "string \<Rightarrow> error + 'f config"
  ParseDuration :: "string \<Rightarrow> error + int"

text \<open>
  \<open>readConfig\<close>.  The statement \<open>pipeline = cfg.Pipeline\<close> copies two slice headers, so
  \<open>pipeline.Prepare()\<close> prepares the Variables and Steps that \<open>cfg.Pipeline\<close> holds too.
  The value \<open>Prepare\<close> returns is dropped (line 315).
\<close>

definition readConfig :: "'f lib \<Rightarrow> 'f sys \<Rightarrow> 'f globals \<Rightarrow> 'f globals \<times> error option" where
  "readConfig L S g =
     (if length (Args S) < 2 then (g, Some noConfig)
      else case ReadFile S (Args S ! 1) of
        Inl e \<Rightarrow> (g, Some e)
      | Inr bb \<Rightarrow>
          (case Unmarshal S bb of
             Inl e \<Rightarrow> (g, Some e)
           | Inr c \<Rightarrow>
               (let g1 = g\<lparr>cfg := c\<rparr>;
                    g2 = (if 0 \<noteq> length (Required c)
                          then g1\<lparr>globals.required := Required c\<rparr> else g1)
                in case (if [] \<noteq> Period c then ParseDuration S (Period c)
                         else Inr (period g2)) of
                     Inl e \<Rightarrow> (g2, Some e)
                   | Inr dur \<Rightarrow>
                       (let g3 = g2\<lparr>period := dur\<rparr>;
                            g4 = (if [] \<noteq> Prefix c then g3\<lparr>prefix := Prefix c\<rparr> else g3);
                            g5 = (if [] \<noteq> WatchDir c then g4\<lparr>watchDir := WatchDir c\<rparr> else g4);
                            g6 = (if [] \<noteq> SubDir c then g5\<lparr>subDir := SubDir c\<rparr> else g5);
                            g7 = (if [] \<noteq> config.OutputDir c
                                  then g6\<lparr>OutputDir := config.OutputDir c\<rparr> else g6);
                            g8 = (if [] \<noteq> Version c then g7\<lparr>version := Version c\<rparr> else g7);
                            prepared = fst (Pipeline_Prepare L (Pipeline c))
                        in (g8\<lparr>pipeline := prepared, cfg := c\<lparr>Pipeline := prepared\<rparr>\<rparr>,
                            None)))))"

text \<open>
  \<open>main\<close> either leaves the process with exit status 1 or enters \<open>Watch\<close> with a new
  watcher.
\<close>

datatype 'f started = Exit int | Watching "'f globals" Watcher

definition main :: "'f lib \<Rightarrow> 'f sys \<Rightarrow> 'f globals \<Rightarrow> 'f started" where
  "main L S g =
     (case readConfig L S g of
        (g', Some e) \<Rightarrow> Exit 1
      | (g', None) \<Rightarrow>
          Watching g' (NewWatcher (WatchDir (cfg g')) (globals.required g') (period g')))"

text \<open>The values the package-level variables are declared with (lines 22--65).\<close>

definition initial_globals :: "'f globals" where
  "initial_globals =
     \<lparr>cfg = \<lparr>Required = [], Period = [], Prefix = [], WatchDir = [], SubDir = [],
              OutputDir = [], Version = [],
              Pipeline = \<lparr>Pipeline.Variables = [], Steps = []\<rparr>\<rparr>,
      pipeline = \<lparr>Pipeline.Variables = [], Steps = []\<rparr>,
      watchDir = ''/data'',
      subDir = ''result'',
      prefix = ''NPP'',
      period = 30 * 1000000000,
      required = [''SVM10'', ''GMTCO'', ''IICMO'', ''SVDNB'', ''SVM07'', ''SVM08'',
                  ''SVM12'', ''SVM13'', ''SVM14'', ''SVM15'', ''SVM16''],
      OutputDir = ''/output'',
      version = ''v2.1''\<rparr>"

section \<open>Invariants of the watcher\<close>

text \<open>Every group sits in \<open>found\<close> under its own \<open>Id\<close>.\<close>

definition keyed :: "Watcher \<Rightarrow> bool" where
  "keyed w = (\<forall>k g. found w k = Some g \<longrightarrow> Id g = k)"

text \<open>
  What a run from \<open>w\<close> to \<open>w'\<close> that passed \<open>calls\<close> to \<open>Process\<close> has to satisfy: no id
  twice, none that \<open>w\<close> already held in \<open>ready\<close>, all of them in \<open>ready\<close> afterwards, and
  \<open>ready\<close> only grows.
\<close>

definition once :: "Watcher \<Rightarrow> Watcher \<Rightarrow> FileGroup list \<Rightarrow> bool" where
  "once w w' calls =
     (distinct (map Id calls) \<and> Id ` set calls \<inter> dom (ready w) = {} \<and>
      Id ` set calls \<subseteq> dom (ready w') \<and> dom (ready w) \<subseteq> dom (ready w'))"

text \<open>\<open>RequiredFound\<close> counts the entries of \<open>Files\<close>, one for each file name.\<close>

definition counted_group :: "FileGroup \<Rightarrow> bool" where
  "counted_group g = (distinct (map fst (Files g)) \<and> RequiredFound g = int (length (Files g)))"

definition counted :: "Watcher \<Rightarrow> bool" where
  "counted w = (\<forall>k g. found w k = Some g \<longrightarrow> counted_group g)"

section \<open>Sample inputs\<close>

text \<open>
  Two files of one group, \<open>A_1_2_3_4_x.h5\<close> and \<open>A_1_2_3_4_y.h5\<close> in the directory
  \<open>/d\<close>, the file system that holds just these two, and the calls \<open>Walk\<close> makes for them.
\<close>

definition sample_x :: FileInfo where
  "sample_x = \<lparr>FileInfo.Name = ''A_1_2_3_4_x.h5'', FileInfo.Size = 10, ModTime = 5\<rparr>"

definition sample_y :: FileInfo where
  "sample_y = \<lparr>FileInfo.Name = ''A_1_2_3_4_y.h5'', FileInfo.Size = 20, ModTime = 6\<rparr>"

definition sample_Stat :: "string \<Rightarrow> error + FileInfo" where
  "sample_Stat path =
     (if path = ''/d/A_1_2_3_4_x.h5'' then Inr sample_x
      else if path = ''/d/A_1_2_3_4_y.h5'' then Inr sample_y
      else Inl (LibError ''no such file or directory''))"

definition visit_x :: visit where
  "visit_x = \<lparr>v_p = ''/d/A_1_2_3_4_x.h5'', v_inf = sample_x, v_err = None, v_Stat = sample_Stat\<rparr>"

definition visit_y :: visit where
  "visit_y = \<lparr>v_p = ''/d/A_1_2_3_4_y.h5'', v_inf = sample_y, v_err = None, v_Stat = sample_Stat\<rparr>"

text \<open>
  The group as it is after the first walk has met \<open>A_1_2_3_4_x.h5\<close> (size 10), and
  two later states of the file system: the file cut down to 4 bytes, and grown to 11.
\<close>

definition shrunk_Stat :: "string \<Rightarrow> error + FileInfo" where
  "shrunk_Stat path =
     (if path = ''/d/A_1_2_3_4_x.h5'' then Inr (sample_x\<lparr>FileInfo.Size := 4\<rparr>)
      else Inl (LibError ''no such file or directory''))"

definition grown_Stat :: "string \<Rightarrow> error + FileInfo" where
  "grown_Stat path =
     (if path = ''/d/A_1_2_3_4_x.h5'' then Inr (sample_x\<lparr>FileInfo.Size := 11\<rparr>)
      else Inl (LibError ''no such file or directory''))"

definition group_x :: FileGroup where
  "group_x = the (found (fst (Walk 0 (NewWatcher ''/d'' [''A''] 0) [visit_x])) ''1_2_3_4'')"

lemmas sample_defs = sample_x_def sample_y_def sample_Stat_def visit_x_def visit_y_def
lemmas watcher_defs = WalkFunc_def isRequired_def HasPrefix_def getId_def Base_def Ext_def
  SplitPath_def IsPathSeparator_def claim_def AnyChanged_def register_def touch_def
  After_def Before_def zeroTime_def NewWatcher_def Let_def

section \<open>A sample of the library and of pipelines\<close>

text \<open>
  An instance of the library parameters, to run the model on examples.  It covers three
  kinds of template text: text in which the left delimiter does not occur renders as
  itself; the single action \<open>((.A))\<close> renders the string bound to \<open>A\<close>, or
  \<open><no value>\<close> when the context has no \<open>A\<close>; the text \<open>((\<close> does not parse.  Its
  \<open>ParseFloat\<close> knows the numeral \<open>3.14\<close> only, its runes are ASCII, and every command
  succeeds with no output.
\<close>

definition occurs :: "string \<Rightarrow> string \<Rightarrow> bool" where
  "occurs pat s = list_ex (\<lambda>i. take (length pat) (drop i s) = pat) [0..<Suc (length s)]"

definition sample_Parse :: "string \<Rightarrow> string \<Rightarrow> error + real template" where
  "sample_Parse name text =
     (if \<not> occurs ''(('' text then Inr (\<lambda>ctx. Inr text)
      else if text = ''((.A))''
      then Inr (\<lambda>ctx. case ctx ''A'' of
                         None \<Rightarrow> Inr ''<no value>''
                       | Some (VStr s) \<Rightarrow> Inr s
                       | Some _ \<Rightarrow> Inl (LibError ''not covered by the sample''))
      else if text = ''(('' then Inl (LibError ''unclosed action'')
      else Inl (LibError ''not covered by the sample''))"

definition sample_lib :: "real lib" where
  "sample_lib =
     \<lparr>tt_Parse = sample_Parse,
      ParseFloat = (\<lambda>s. if s = ''3.14'' then Some (314 / 100) else None),
      ReadRunes = map of_char,
      String = map char_of,
      Output = (\<lambda>cmd args. ([], None))\<rparr>"

lemmas lib_defs = sample_lib_def sample_Parse_def occurs_def
lemmas parse_defs = ParseBool_def ParseInt_def ParseUint_def isDigit_def

text \<open>
  A context that binds \<open>X\<close>; a step that declares \<open>X\<close> again and the new \<open>Y\<close>; a step
  with no Variables; a step whose second Variable fails to render; and two Variables
  of which the second refers to the first.
\<close>

definition sample_ctx :: "real ctx" where
  "sample_ctx = [''X'' \<mapsto> VInt 1]"

definition sample_step :: "real Step" where
  "sample_step =
     \<lparr>Step.Name = ''step 1'',
      Variables = [\<lparr>Variable.Name = ''X'', Value = VInt 2, expression = None\<rparr>,
                   \<lparr>Variable.Name = ''Y'', Value = VInt 9, expression = None\<rparr>],
      Command = ''true'',
      command = Some (\<lambda>ctx. Inr ''true'')\<rparr>"

definition plain_step :: "real Step" where
  "plain_step =
     \<lparr>Step.Name = ''step 2'', Variables = [], Command = ''true'',
      command = Some (\<lambda>ctx. Inr ''true'')\<rparr>"

definition failing_step :: "real Step" where
  "failing_step =
     \<lparr>Step.Name = ''step 3'',
      Variables = [\<lparr>Variable.Name = ''X'', Value = VInt 2, expression = None\<rparr>,
                   \<lparr>Variable.Name = ''Z'', Value = VStr ''((.X.y))'',
                    expression = Some (\<lambda>ctx. Inl (LibError ''cannot evaluate field y''))\<rparr>],
      Command = ''true'',
      command = Some (\<lambda>ctx. Inr ''true'')\<rparr>"

definition chained_variables :: "real Variable list" where
  "chained_variables =
     [\<lparr>Variable.Name = ''A'', Value = VStr ''alpha'', expression = None\<rparr>,
      \<lparr>Variable.Name = ''B'', Value = VStr ''((.A))'', expression = None\<rparr>]"

definition chained_step :: "real Step" where
  "chained_step =
     \<lparr>Step.Name = ''step 4'', Variables = chained_variables, Command = ''true'', command = None\<rparr>"

lemmas step_defs = sample_ctx_def sample_step_def plain_step_def failing_step_def
  chained_variables_def chained_step_def
lemmas pipeline_defs = Variable_Prepare_def Variable_Eval_def Step_Prepare_def
  Step_EvalVariables_def Step_Exec_def Step_run_def Pipeline_Prepare_def
  Pipeline_EvalVariables_def

text \<open>
  A configuration whose pipeline has a Variable with the template text \<open>((\<close>, and the
  outside world that delivers it: two command-line arguments, a readable file, a
  decoder that yields this configuration.
\<close>

definition broken_config :: "real config" where
  "broken_config =
     \<lparr>Required = [''A''], Period = [], Prefix = [], WatchDir = ''/d'', SubDir = [],
      OutputDir = [], Version = [],
      Pipeline = \<lparr>Pipeline.Variables =
                    [\<lparr>Variable.Name = ''X'', Value = VStr ''(('', expression = None\<rparr>],
                  Steps = []\<rparr>\<rparr>"

definition sample_sys :: "real sys" where
  "sample_sys =
     \<lparr>Args = [''viirs-watcher'', ''config.yml''],
      ReadFile = (\<lambda>path. Inr ''Pipeline: ...''),
      Unmarshal = (\<lambda>doc. Inr broken_config),
      ParseDuration = (\<lambda>s. Inl (LibError ''invalid duration''))\<rparr>"

section \<open>Properties of the tokenizer\<close>

lemma wrap_no_empty:
  "[] \<notin> set (split l) \<Longrightarrow> [] \<notin> set (split (wrap l))"
  by (simp add: wrap_def)

lemma lex_rune_no_empty:
  "[] \<notin> set (split l) \<Longrightarrow> [] \<notin> set (split (lex_rune l r))"
  by (cases "state l") (simp_all add: lex_rune_def wrap_def WriteRune_def)

lemma lex_loop_no_empty:
  "[] \<notin> set (split l) \<Longrightarrow> [] \<notin> set (split (lex_loop l rs))"
  by (induction rs arbitrary: l) (simp_all add: lex_rune_no_empty)

lemma lex_rune_state_sticky:
  "state l \<noteq> DEFAULT \<Longrightarrow> state (lex_rune l r) = state l"
  by (cases "state l") (simp_all add: lex_rune_def wrap_def WriteRune_def)

text \<open>
  C3.  The claim says that a closing quote returns the lexer to \<open>DEFAULT\<close> and that
  \<open>cmd -o "a b" 'c d' e\ f\<close> splits into \<open>cmd\<close>, \<open>-o\<close>, \<open>a b\<close>, \<open>c d\<close>, \<open>e f\<close>.  The code
  never assigns \<open>state = DEFAULT\<close>: on that input the lexer is still in \<open>IN_DQ\<close> after
  the quote that closes \<open>a b\<close>, and everything that follows is one fourth token,
  quotes and backslash included.
\<close>

theorem tokenize_quoted_example:
  "tokenize (runes ''cmd -o '' @ [34] @ runes ''a b'' @ [34, 32, 39] @ runes ''c d''
             @ [39, 32] @ runes ''e'' @ [92, 32] @ runes ''f'')
   = [runes ''cmd'', runes ''-o'', runes ''a b'',
      [32, 39] @ runes ''c d'' @ [39, 32] @ runes ''e'' @ [92, 32] @ runes ''f'']
   \<and> state (lex_loop \<lparr>state = DEFAULT, acc = [], split = []\<rparr>
             (0 # runes ''cmd -o '' @ [34] @ runes ''a b'' @ [34])) = IN_DQ"
  by (simp add: tokenize_def runes_def lex_rune_def wrap_def WriteRune_def)

text \<open>
  C8 (as stated, refuted).  The input of two single quotes gives no token at all:
  \<open>wrap\<close> appends the accumulator only when it is not empty.
\<close>

theorem tokenize_empty_quotes_counterexample:
  "tokenize [39, 39] \<noteq> [ [] ]"
  by (simp add: tokenize_def lex_rune_def wrap_def WriteRune_def)

text \<open>
  C8 (amended).  Tokenizing the two single quotes yields the empty token list, and no
  input whatever yields an empty token: a token is emitted only when its accumulator
  is non-empty, also when a closing quote ends it.
\<close>

theorem tokenize_never_empty_token:
  "tokenize [39, 39] = [] \<and> [] \<notin> set (tokenize rs)"
proof
  show "tokenize [39, 39] = []"
    by (simp add: tokenize_def lex_rune_def wrap_def WriteRune_def)
  show "[] \<notin> set (tokenize rs)"
    unfolding tokenize_def
    by (rule wrap_no_empty, rule lex_loop_no_empty) simp
qed

section \<open>Properties of the watcher\<close>

subsection \<open>A group is passed to \<open>Process\<close> at most once\<close>

lemma Id_touch [simp]: "Id (touch i g) = Id g"
  by (simp add: touch_def)

lemma Id_register [simp]: "Id (register path i g) = Id g"
  by (simp add: register_def split: option.split)

lemma claim_cases:
  assumes "claim lt st req rdy a grp = (rdy', calls)"
  shows "(rdy' = rdy \<and> calls = []) \<or> (rdy' = rdy(Id grp \<mapsto> a) \<and> (calls = [] \<or> calls = [grp]))"
  using assms by (auto simp: claim_def split: if_splits prod.splits option.splits)

lemma WalkFunc_cases:
  assumes "WalkFunc lt w v = (w', r, calls)"
  shows "(w' = w \<and> calls = []) \<or>
         (\<exists>k grp rdy. getId (FileInfo.Name (v_inf v)) = Inr k \<and> ready w k = None \<and> r = None \<and>
            (found w k = Some grp \<or>
             found w k = None \<and> grp = \<lparr>Files = [], LastModified = zeroTime,
                                      Path = fst (SplitPath (v_p v)), Id = k,
                                      RequiredFound = 0, HasNight = False\<rparr>) \<and>
            claim lt (v_Stat v) (Watcher.required w) (ready w) k grp = (rdy, calls) \<and>
            w' = w\<lparr>found := (found w)(k \<mapsto> register (v_p v) (v_inf v) (touch (v_inf v) grp)),
                   ready := rdy\<rparr>)"
  using assms
  by (auto simp: WalkFunc_def Let_def split: option.splits if_splits sum.splits prod.splits)


lemma WalkFunc_keyed:
  assumes "keyed w" and "WalkFunc lt w v = (w', r, calls)"
  shows "keyed w'"
  using WalkFunc_cases [OF assms(2)]
proof
  assume "w' = w \<and> calls = []"
  with assms(1) show ?thesis by simp
next
  assume "\<exists>k grp rdy. getId (FileInfo.Name (v_inf v)) = Inr k \<and> ready w k = None \<and> r = None \<and>
            (found w k = Some grp \<or>
             found w k = None \<and> grp = \<lparr>Files = [], LastModified = zeroTime,
                                      Path = fst (SplitPath (v_p v)), Id = k,
                                      RequiredFound = 0, HasNight = False\<rparr>) \<and>
            claim lt (v_Stat v) (Watcher.required w) (ready w) k grp = (rdy, calls) \<and>
            w' = w\<lparr>found := (found w)(k \<mapsto> register (v_p v) (v_inf v) (touch (v_inf v) grp)),
                   ready := rdy\<rparr>"
  then obtain k grp where grp: "found w k = Some grp \<or> found w k = None \<and> Id grp = k"
    and w': "found w' = (found w)(k \<mapsto> register (v_p v) (v_inf v) (touch (v_inf v) grp))"
    by force
  from grp assms(1) have idk: "Id grp = k" by (auto simp: keyed_def)
  show ?thesis
    unfolding keyed_def
  proof (intro allI impI)
    fix j g assume "found w' j = Some g"
    with w' idk assms(1) show "Id g = j"
      by (cases "j = k") (auto simp: keyed_def)
  qed
qed

lemma WalkFunc_once:
  assumes "keyed w" and "WalkFunc lt w v = (w', r, calls)"
  shows "once w w' calls"
  using WalkFunc_cases [OF assms(2)]
proof
  assume "w' = w \<and> calls = []"
  then show ?thesis by (simp add: once_def)
next
  assume "\<exists>k grp rdy. getId (FileInfo.Name (v_inf v)) = Inr k \<and> ready w k = None \<and> r = None \<and>
            (found w k = Some grp \<or>
             found w k = None \<and> grp = \<lparr>Files = [], LastModified = zeroTime,
                                      Path = fst (SplitPath (v_p v)), Id = k,
                                      RequiredFound = 0, HasNight = False\<rparr>) \<and>
            claim lt (v_Stat v) (Watcher.required w) (ready w) k grp = (rdy, calls) \<and>
            w' = w\<lparr>found := (found w)(k \<mapsto> register (v_p v) (v_inf v) (touch (v_inf v) grp)),
                   ready := rdy\<rparr>"
  then obtain k grp rdy where k: "ready w k = None"
    and grp: "found w k = Some grp \<or> found w k = None \<and> Id grp = k"
    and cl: "claim lt (v_Stat v) (Watcher.required w) (ready w) k grp = (rdy, calls)"
    and w': "ready w' = rdy"
    by force
  from grp assms(1) have idk: "Id grp = k" by (auto simp: keyed_def)
  from claim_cases [OF cl] idk k w' show ?thesis
    by (auto simp: once_def)
qed

lemma once_sets:
  fixes A B R R' R'' :: "'a set"
  assumes "A \<inter> R = {}" "A \<subseteq> R'" "R \<subseteq> R'" "B \<inter> R' = {}" "B \<subseteq> R''" "R' \<subseteq> R''"
  shows "A \<inter> B = {} \<and> (A \<union> B) \<inter> R = {} \<and> A \<union> B \<subseteq> R'' \<and> R \<subseteq> R''"
  using assms by blast

lemma once_trans:
  assumes "once w w' cs" and "once w' w'' ds"
  shows "once w w'' (cs @ ds)"
proof -
  from assms(1) have d1: "distinct (map Id cs)"
    and c1: "Id ` set cs \<inter> dom (ready w) = {}"
    and c2: "Id ` set cs \<subseteq> dom (ready w')"
    and m1: "dom (ready w) \<subseteq> dom (ready w')"
    by (simp_all only: once_def)
  from assms(2) have d2: "distinct (map Id ds)"
    and e1: "Id ` set ds \<inter> dom (ready w') = {}"
    and e2: "Id ` set ds \<subseteq> dom (ready w'')"
    and m2: "dom (ready w') \<subseteq> dom (ready w'')"
    by (simp_all only: once_def)
  note s = once_sets [OF c1 c2 m1 e1 e2 m2]
  from s have x: "set (map Id cs) \<inter> set (map Id ds) = {}"
    by (simp only: set_map)
  have g1: "distinct (map Id (cs @ ds))"
    using d1 d2 x by (simp only: map_append distinct_append simp_thms)
  have g2: "Id ` set (cs @ ds) \<inter> dom (ready w) = {}"
    using s by (simp only: set_append image_Un)
  have g3: "Id ` set (cs @ ds) \<subseteq> dom (ready w'')"
    using s by (simp only: set_append image_Un)
  have g4: "dom (ready w) \<subseteq> dom (ready w'')"
    using s by (simp only:)
  show ?thesis
    using g1 g2 g3 g4 by (simp only: once_def simp_thms)
qed

lemma Walk_keyed_once:
  "keyed w \<Longrightarrow> Walk lt w vs = (w', calls) \<Longrightarrow> keyed w' \<and> once w w' calls"
proof (induction vs arbitrary: w w' calls)
  case Nil
  then show ?case by (simp add: once_def)
next
  case (Cons v vs)
  obtain w1 r cs where step: "WalkFunc lt w v = (w1, r, cs)"
    by (cases "WalkFunc lt w v") auto
  have k1: "keyed w1" and o1: "once w w1 cs"
    using WalkFunc_keyed [OF Cons.prems(1) step] WalkFunc_once [OF Cons.prems(1) step]
    by simp_all
  show ?case
  proof (cases r)
    case (Some e)
    with step Cons.prems(2) have "w' = w1" "calls = cs" by simp_all
    with k1 o1 show ?thesis by simp
  next
    case None
    obtain w2 ds where rest: "Walk lt w1 vs = (w2, ds)"
      by (cases "Walk lt w1 vs") auto
    with None step Cons.prems(2) have eq: "w' = w2" "calls = cs @ ds" by simp_all
    from Cons.IH [OF k1 rest] have k2: "keyed w2" and o2: "once w1 w2 ds" by simp_all
    from once_trans [OF o1 o2] k2 eq show ?thesis by simp
  qed
qed

lemma Watch_keyed_once:
  "keyed w \<Longrightarrow> Watch lt w scans = (w', calls) \<Longrightarrow> keyed w' \<and> once w w' calls"
proof (induction scans arbitrary: w w' calls)
  case Nil
  then show ?case by (simp add: once_def)
next
  case (Cons sc scans)
  obtain w1 cs where step: "Walk lt w sc = (w1, cs)"
    by (cases "Walk lt w sc") auto
  obtain w2 ds where rest: "Watch lt w1 scans = (w2, ds)"
    by (cases "Watch lt w1 scans") auto
  from step rest Cons.prems(2) have eq: "w' = w2" "calls = cs @ ds" by simp_all
  from Walk_keyed_once [OF Cons.prems(1) step] have k1: "keyed w1" and o1: "once w w1 cs"
    by simp_all
  from Cons.IH [OF k1 rest] have k2: "keyed w2" and o2: "once w1 w2 ds" by simp_all
  from once_trans [OF o1 o2] k2 eq show ?case by simp
qed

lemma keyed_NewWatcher: "keyed (NewWatcher r req d)"
  by (simp add: keyed_def NewWatcher_def)

lemma WalkFunc_ready_ignored:
  assumes "getId (FileInfo.Name (v_inf v)) = Inr k" and "ready w k \<noteq> None"
  shows "WalkFunc lt w v = (w, v_err v, [])"
  using assms by (auto simp: WalkFunc_def Let_def split: option.splits)

text \<open>
  C1.  In every run of the watch loop that starts from a new watcher, whatever the
  rounds bring, no two of the groups passed to \<open>Process\<close> have the same id, and each of
  them is in \<open>ready\<close>; and a call for a file whose id is in \<open>ready\<close> changes nothing and
  passes nothing to \<open>Process\<close>.
\<close>

theorem Watch_dispatches_each_id_once:
  "distinct (map Id (snd (Watch launchTime (NewWatcher r req d) scans)))
   \<and> Id ` set (snd (Watch launchTime (NewWatcher r req d) scans))
       \<subseteq> dom (ready (fst (Watch launchTime (NewWatcher r req d) scans)))
   \<and> (getId (FileInfo.Name (v_inf v)) = Inr k \<and> ready w k \<noteq> None
        \<longrightarrow> WalkFunc launchTime w v = (w, v_err v, []))"
proof -
  obtain w' calls where run: "Watch launchTime (NewWatcher r req d) scans = (w', calls)"
    by (cases "Watch launchTime (NewWatcher r req d) scans") auto
  from Watch_keyed_once [OF keyed_NewWatcher run] have "once (NewWatcher r req d) w' calls"
    by simp
  then have "distinct (map Id calls)" "Id ` set calls \<subseteq> dom (ready w')"
    by (simp_all add: once_def)
  moreover have "getId (FileInfo.Name (v_inf v)) = Inr k \<and> ready w k \<noteq> None
        \<longrightarrow> WalkFunc launchTime w v = (w, v_err v, [])"
    using WalkFunc_ready_ignored [of v k w launchTime] by blast
  ultimately show ?thesis
    using run by simp
qed

theorem Watch_dispatches_each_id_once_witness:
  "getId (FileInfo.Name (v_inf visit_x)) = Inr ''1_2_3_4''
   \<and> ready (fst (Watch 0 (NewWatcher ''/d'' [''A''] 0) [ [visit_x], [visit_x] ])) ''1_2_3_4'' \<noteq> None
   \<and> WalkFunc 0 (fst (Watch 0 (NewWatcher ''/d'' [''A''] 0) [ [visit_x], [visit_x] ])) visit_x
       = (fst (Watch 0 (NewWatcher ''/d'' [''A''] 0) [ [visit_x], [visit_x] ]), None, [])
   \<and> map Id (snd (Watch 0 (NewWatcher ''/d'' [''A''] 0) [ [visit_x], [visit_x], [visit_x] ]))
       = [''1_2_3_4'']
   \<and> distinct (map Id (snd (Watch 0 (NewWatcher ''/d'' [''A''] 0)
                               [ [visit_x], [visit_x], [visit_x] ])))"
  using Watch_dispatches_each_id_once
    [where launchTime = 0 and r = "''/d''" and req = "[''A'']" and d = 0
       and scans = "[ [visit_x], [visit_x], [visit_x] ]" and v = visit_x and k = "''1_2_3_4''"
       and w = "fst (Watch 0 (NewWatcher ''/d'' [''A''] 0) [ [visit_x], [visit_x] ])"]
  by (simp add: sample_defs watcher_defs)

subsection \<open>\<open>RequiredFound\<close>\<close>

lemma WalkFunc_found:
  "found (fst (WalkFunc lt w v)) = found w \<or>
   (\<exists>k grp. (found w k = Some grp \<or>
              found w k = None \<and> grp = \<lparr>Files = [], LastModified = zeroTime,
                                      Path = fst (SplitPath (v_p v)), Id = k,
                                      RequiredFound = 0, HasNight = False\<rparr>) \<and>
      found (fst (WalkFunc lt w v)) = (found w)(k \<mapsto> register (v_p v) (v_inf v) (touch (v_inf v) grp)))"
  by (auto simp: WalkFunc_def Let_def split: option.splits if_splits sum.splits prod.splits)

lemma map_fst_refresh:
  "map (fst \<circ> (\<lambda>(k, f). if k = n then (k, h f) else (k, f))) xs = map fst xs"
  by (induction xs) (auto split: prod.splits)

lemma fst_Walk_Cons:
  "fst (Walk lt w (v # vs)) =
     (if fst (snd (WalkFunc lt w v)) = None then fst (Walk lt (fst (WalkFunc lt w v)) vs)
      else fst (WalkFunc lt w v))"
  by (simp split: prod.splits option.splits)

lemma fst_Watch_Cons:
  "fst (Watch lt w (sc # scans)) = fst (Watch lt (fst (Walk lt w sc)) scans)"
  by (simp split: prod.splits)

lemma register_counted:
  assumes "counted_group g"
  shows "counted_group (register path i g)"
proof (cases "map_of (Files g) (FileInfo.Name i)")
  case None
  then have "FileInfo.Name i \<notin> fst ` set (Files g)"
    by (simp add: map_of_eq_None_iff)
  with assms None show ?thesis
    by (simp add: counted_group_def register_def)
next
  case (Some f)
  with assms show ?thesis
    by (simp add: counted_group_def register_def map_fst_refresh)
qed

lemma touch_counted: "counted_group g \<Longrightarrow> counted_group (touch i g)"
  by (simp add: counted_group_def touch_def)

lemma register_RequiredFound: "RequiredFound g \<le> RequiredFound (register path i g)"
  by (simp add: register_def split: option.split)

lemma touch_RequiredFound: "RequiredFound (touch i g) = RequiredFound g"
  by (simp add: touch_def)

lemma WalkFunc_counted:
  assumes "counted w"
  shows "counted (fst (WalkFunc lt w v))"
  using WalkFunc_found [of lt w v]
proof
  assume "found (fst (WalkFunc lt w v)) = found w"
  with assms show ?thesis by (simp add: counted_def)
next
  assume "\<exists>k grp. (found w k = Some grp \<or>
              found w k = None \<and> grp = \<lparr>Files = [], LastModified = zeroTime,
                                      Path = fst (SplitPath (v_p v)), Id = k,
                                      RequiredFound = 0, HasNight = False\<rparr>) \<and>
      found (fst (WalkFunc lt w v)) = (found w)(k \<mapsto> register (v_p v) (v_inf v) (touch (v_inf v) grp))"
  then obtain k grp where grp: "found w k = Some grp \<or>
              found w k = None \<and> grp = \<lparr>Files = [], LastModified = zeroTime,
                                      Path = fst (SplitPath (v_p v)), Id = k,
                                      RequiredFound = 0, HasNight = False\<rparr>"
    and upd: "found (fst (WalkFunc lt w v)) = (found w)(k \<mapsto> register (v_p v) (v_inf v) (touch (v_inf v) grp))"
    by blast
  from grp assms have "counted_group grp"
    by (auto simp: counted_def counted_group_def)
  then have new: "counted_group (register (v_p v) (v_inf v) (touch (v_inf v) grp))"
    by (intro register_counted touch_counted)
  show ?thesis
    unfolding counted_def
  proof (intro allI impI)
    fix j g assume "found (fst (WalkFunc lt w v)) j = Some g"
    with upd new assms show "counted_group g"
      by (cases "j = k") (auto simp: counted_def)
  qed
qed

lemma WalkFunc_monotone:
  assumes "found w k = Some g"
  shows "\<exists>g'. found (fst (WalkFunc lt w v)) k = Some g' \<and> RequiredFound g \<le> RequiredFound g'"
  using WalkFunc_found [of lt w v]
proof
  assume "found (fst (WalkFunc lt w v)) = found w"
  with assms show ?thesis by simp
next
  assume "\<exists>k grp. (found w k = Some grp \<or>
              found w k = None \<and> grp = \<lparr>Files = [], LastModified = zeroTime,
                                      Path = fst (SplitPath (v_p v)), Id = k,
                                      RequiredFound = 0, HasNight = False\<rparr>) \<and>
      found (fst (WalkFunc lt w v)) = (found w)(k \<mapsto> register (v_p v) (v_inf v) (touch (v_inf v) grp))"
  then obtain j grp where grp: "found w j = Some grp \<or> found w j = None"
    and upd: "found (fst (WalkFunc lt w v)) = (found w)(j \<mapsto> register (v_p v) (v_inf v) (touch (v_inf v) grp))"
    by blast
  show ?thesis
  proof (cases "j = k")
    case True
    with grp assms have "grp = g" by simp
    with True upd register_RequiredFound [of "touch (v_inf v) g" "v_p v" "v_inf v"]
    show ?thesis by (simp add: touch_RequiredFound)
  next
    case False
    with upd assms show ?thesis by simp
  qed
qed


lemma Walk_counted: "counted w \<Longrightarrow> counted (fst (Walk lt w vs))"
proof (induction vs arbitrary: w)
  case Nil
  then show ?case by simp
next
  case (Cons v vs)
  from Cons.prems have c1: "counted (fst (WalkFunc lt w v))"
    by (rule WalkFunc_counted)
  from Cons.IH [OF c1] c1 show ?case
    by (simp add: fst_Walk_Cons del: Walk.simps)
qed

lemma Watch_counted: "counted w \<Longrightarrow> counted (fst (Watch lt w scans))"
proof (induction scans arbitrary: w)
  case Nil
  then show ?case by simp
next
  case (Cons sc scans)
  from Cons.prems have c1: "counted (fst (Walk lt w sc))"
    by (rule Walk_counted)
  from Cons.IH [OF c1] show ?case
    by (simp only: fst_Watch_Cons)
qed

lemma Walk_monotone:
  "found w k = Some g \<Longrightarrow>
     \<exists>g'. found (fst (Walk lt w vs)) k = Some g' \<and> RequiredFound g \<le> RequiredFound g'"
proof (induction vs arbitrary: w g)
  case Nil
  then show ?case by simp
next
  case (Cons v vs)
  from WalkFunc_monotone [OF Cons.prems, of lt v]
  obtain g1 where g1: "found (fst (WalkFunc lt w v)) k = Some g1"
    and le1: "RequiredFound g \<le> RequiredFound g1"
    by blast
  from Cons.IH [OF g1]
  obtain g2 where g2: "found (fst (Walk lt (fst (WalkFunc lt w v)) vs)) k = Some g2"
    and le2: "RequiredFound g1 \<le> RequiredFound g2"
    by blast
  from le1 le2 have le: "RequiredFound g \<le> RequiredFound g2" by simp
  from g1 le1 g2 le show ?case
    by (simp add: fst_Walk_Cons del: Walk.simps)
qed

lemma Watch_monotone:
  "found w k = Some g \<Longrightarrow>
     \<exists>g'. found (fst (Watch lt w scans)) k = Some g' \<and> RequiredFound g \<le> RequiredFound g'"
proof (induction scans arbitrary: w g)
  case Nil
  then show ?case by simp
next
  case (Cons sc scans)
  from Walk_monotone [OF Cons.prems, of lt sc]
  obtain g1 where g1: "found (fst (Walk lt w sc)) k = Some g1"
    and le1: "RequiredFound g \<le> RequiredFound g1"
    by blast
  from Cons.IH [OF g1]
  obtain g2 where g2: "found (fst (Watch lt (fst (Walk lt w sc)) scans)) k = Some g2"
    and le2: "RequiredFound g1 \<le> RequiredFound g2"
    by blast
  from le1 le2 have le: "RequiredFound g \<le> RequiredFound g2" by simp
  from g2 le show ?case
    by (simp add: fst_Watch_Cons del: Watch.simps)
qed

lemma counted_NewWatcher: "counted (NewWatcher r req d)"
  by (simp add: counted_def NewWatcher_def)

text \<open>
  C4 (as stated, refuted).  With the one required prefix \<open>A\<close>, the two files
  \<open>A_1_2_3_4_x.h5\<close> and \<open>A_1_2_3_4_y.h5\<close> belong to the same group, and after one walk
  over both the group's \<open>RequiredFound\<close> is 2.
\<close>

theorem RequiredFound_exceeds_required_counterexample:
  "map_option RequiredFound
     (found (fst (Walk 0 (NewWatcher ''/d'' [''A''] 0) [visit_x, visit_y])) ''1_2_3_4'') = Some 2
   \<and> \<not> 2 \<le> int (length (Watcher.required
                           (fst (Walk 0 (NewWatcher ''/d'' [''A''] 0) [visit_x, visit_y]))))"
  by (simp add: sample_defs watcher_defs)

text \<open>
  C4 (amended).  \<open>RequiredFound\<close> of a group never decreases, neither in one call of
  the walk function nor over any number of rounds, and in every state the watch loop
  reaches it is the number of entries of the group's \<open>Files\<close>, which holds each file
  name once.
\<close>

theorem RequiredFound_counts_file_names:
  "(found w k = Some g \<longrightarrow>
      (\<exists>g'. found (fst (WalkFunc launchTime w v)) k = Some g'
            \<and> RequiredFound g \<le> RequiredFound g')
    \<and> (\<exists>g'. found (fst (Watch launchTime w scans)) k = Some g'
            \<and> RequiredFound g \<le> RequiredFound g'))
   \<and> (found (fst (Watch launchTime (NewWatcher r req d) scans)) k = Some h \<longrightarrow>
        distinct (map fst (Files h)) \<and> RequiredFound h = int (length (Files h)))"
proof (intro conjI impI)
  assume "found w k = Some g"
  then show "\<exists>g'. found (fst (WalkFunc launchTime w v)) k = Some g'
            \<and> RequiredFound g \<le> RequiredFound g'"
    by (rule WalkFunc_monotone)
next
  assume "found w k = Some g"
  then show "\<exists>g'. found (fst (Watch launchTime w scans)) k = Some g'
            \<and> RequiredFound g \<le> RequiredFound g'"
    by (rule Watch_monotone)
next
  assume h: "found (fst (Watch launchTime (NewWatcher r req d) scans)) k = Some h"
  have "counted (fst (Watch launchTime (NewWatcher r req d) scans))"
    by (rule Watch_counted [OF counted_NewWatcher])
  with h have "counted_group h"
    unfolding counted_def by blast
  then show "distinct (map fst (Files h))" "RequiredFound h = int (length (Files h))"
    by (simp_all add: counted_group_def)
qed

theorem RequiredFound_counts_file_names_witness:
  "found (fst (Walk 0 (NewWatcher ''/d'' [''A''] 0) [visit_x])) ''1_2_3_4''
     = Some (the (found (fst (Walk 0 (NewWatcher ''/d'' [''A''] 0) [visit_x])) ''1_2_3_4''))
   \<and> RequiredFound (the (found (fst (Walk 0 (NewWatcher ''/d'' [''A''] 0) [visit_x])) ''1_2_3_4'')) = 1
   \<and> (\<exists>g'. found (fst (WalkFunc 0 (fst (Walk 0 (NewWatcher ''/d'' [''A''] 0) [visit_x])) visit_y))
              ''1_2_3_4'' = Some g' \<and> 1 \<le> RequiredFound g')
   \<and> found (fst (Watch 0 (NewWatcher ''/d'' [''A''] 0) [ [visit_x, visit_y] ])) ''1_2_3_4''
     = Some (the (found (fst (Watch 0 (NewWatcher ''/d'' [''A''] 0) [ [visit_x, visit_y] ])) ''1_2_3_4''))
   \<and> RequiredFound (the (found (fst (Watch 0 (NewWatcher ''/d'' [''A''] 0) [ [visit_x, visit_y] ]))
                           ''1_2_3_4''))
     = int (length (Files (the (found (fst (Watch 0 (NewWatcher ''/d'' [''A''] 0)
                                            [ [visit_x, visit_y] ])) ''1_2_3_4''))))"
  using RequiredFound_counts_file_names
    [where launchTime = 0 and r = "''/d''" and req = "[''A'']" and d = 0
       and scans = "[ [visit_x, visit_y] ]" and v = visit_y and k = "''1_2_3_4''"
       and w = "fst (Walk 0 (NewWatcher ''/d'' [''A''] 0) [visit_x])"
       and g = "the (found (fst (Walk 0 (NewWatcher ''/d'' [''A''] 0) [visit_x])) ''1_2_3_4'')"
       and h = "the (found (fst (Watch 0 (NewWatcher ''/d'' [''A''] 0) [ [visit_x, visit_y] ]))
                      ''1_2_3_4'')"]
  by (simp add: sample_defs watcher_defs)

subsection \<open>\<open>AnyChanged\<close>\<close>

lemma AnyChanged_loop_all_stat:
  assumes "\<forall>f \<in> set fs. \<not> isl (stat (Fullpath f))"
  shows "AnyChanged_loop stat fs =
           ((\<exists>f \<in> set fs. After (ModTime (projr (stat (Fullpath f)))) (File.LastModified f)
                          \<or> FileInfo.Size (projr (stat (Fullpath f))) > File.Size f), None)"
  using assms
proof (induction fs)
  case Nil
  then show ?case by simp
next
  case (Cons f fs)
  from Cons.prems obtain i where i: "stat (Fullpath f) = Inr i"
    by (cases "stat (Fullpath f)") auto
  from Cons.prems have "\<forall>f \<in> set fs. \<not> isl (stat (Fullpath f))" by simp
  from Cons.IH [OF this] i show ?case by simp
qed

text \<open>
  C5 (as stated, refuted).  The tracked file was recorded with 10 bytes and now has 4,
  at the same modification time: the size differs from the recorded one, and
  \<open>AnyChanged\<close> returns false.
\<close>

theorem AnyChanged_misses_shrunk_file_counterexample:
  "AnyChanged shrunk_Stat group_x = (False, None)
   \<and> map (File.Size \<circ> snd) (Files group_x) = [10]
   \<and> map_sum id FileInfo.Size (shrunk_Stat ''/d/A_1_2_3_4_x.h5'') = Inr 4"
  by (simp add: group_x_def shrunk_Stat_def sample_defs watcher_defs)

text \<open>
  C5 (amended).  When every tracked file stats successfully, \<open>AnyChanged\<close> returns true
  if and only if some tracked file's live modification time is after the recorded one
  or its live size is greater than the recorded one; and it returns no error.
\<close>

theorem AnyChanged_iff_newer_or_larger:
  assumes "\<forall>f \<in> set (map snd (Files fg)). \<not> isl (stat (Fullpath f))"
  shows "AnyChanged stat fg =
           ((\<exists>f \<in> set (map snd (Files fg)).
               After (ModTime (projr (stat (Fullpath f)))) (File.LastModified f)
               \<or> FileInfo.Size (projr (stat (Fullpath f))) > File.Size f), None)"
  unfolding AnyChanged_def using assms by (rule AnyChanged_loop_all_stat)

theorem AnyChanged_iff_newer_or_larger_witness:
  "list_all (\<lambda>f. \<not> isl (grown_Stat (Fullpath f))) (map snd (Files group_x))
   \<and> AnyChanged grown_Stat group_x = (True, None)
   \<and> list_all (\<lambda>f. \<not> isl (sample_Stat (Fullpath f))) (map snd (Files group_x))
   \<and> AnyChanged sample_Stat group_x = (False, None)"
  using AnyChanged_iff_newer_or_larger [of group_x grown_Stat]
    AnyChanged_iff_newer_or_larger [of group_x sample_Stat]
  by (simp add: group_x_def grown_Stat_def sample_defs watcher_defs)

section \<open>Properties of the pipeline engine\<close>

subsection \<open>Evaluating a Variable\<close>

lemma Variable_Eval_unprepared:
  "expression v = None \<Longrightarrow> Variable_Eval L v ctx = Inr (Value v)"
  by (simp add: Variable_Eval_def)

text \<open>
  C7.  Take a Variable as \<open>UnmarshalYAML\<close> builds it and let \<open>Prepare\<close> succeed on it.
  If its raw value is not a string, \<open>Eval\<close> returns the raw value as it is.  If it is
  a string, \<open>Eval\<close> renders the template compiled from it and returns the boolean when
  \<open>ParseBool\<close> accepts the rendered text, else the \<open>int64\<close> when \<open>ParseInt\<close> accepts
  it, else the float when \<open>ParseFloat\<close> accepts it, else the text.  A rendered
  \<open>true\<close> gives the boolean, \<open>42\<close> the integer 42, \<open>3.14\<close> the float that
  \<open>ParseFloat\<close> reads, \<open>hello\<close> (no float) the string.
\<close>

theorem Variable_Eval_coerces_in_order:
  assumes "Variable_Prepare L \<lparr>Variable.Name = n, Value = raw, expression = None\<rparr> = (v, None)"
  shows "(case raw of
            VStr s \<Rightarrow>
              (\<exists>t. tt_Parse L n s = Inr t \<and>
                 Variable_Eval L v ctx =
                   (case t ctx of
                      Inl e \<Rightarrow> Inl e
                    | Inr str \<Rightarrow>
                        Inr (case ParseBool str of
                               Some b \<Rightarrow> VBool b
                             | None \<Rightarrow>
                                 (case ParseInt str of
                                    Some i \<Rightarrow> VInt64 i
                                  | None \<Rightarrow>
                                      (case ParseFloat L str of
                                         Some f \<Rightarrow> VFloat f
                                       | None \<Rightarrow> VStr str)))))
          | _ \<Rightarrow> Variable_Eval L v ctx = Inr raw)
       \<and> (expression u = Some t' \<and> t' ctx = Inr ''true''
            \<longrightarrow> Variable_Eval L u ctx = Inr (VBool True))
       \<and> (expression u = Some t' \<and> t' ctx = Inr ''42''
            \<longrightarrow> Variable_Eval L u ctx = Inr (VInt64 42))
       \<and> (expression u = Some t' \<and> t' ctx = Inr ''3.14'' \<and> ParseFloat L ''3.14'' = Some f
            \<longrightarrow> Variable_Eval L u ctx = Inr (VFloat f))
       \<and> (expression u = Some t' \<and> t' ctx = Inr ''hello'' \<and> ParseFloat L ''hello'' = None
            \<longrightarrow> Variable_Eval L u ctx = Inr (VStr ''hello''))"
proof (intro conjI impI)
  show "case raw of
            VStr s \<Rightarrow>
              (\<exists>t. tt_Parse L n s = Inr t \<and>
                 Variable_Eval L v ctx =
                   (case t ctx of
                      Inl e \<Rightarrow> Inl e
                    | Inr str \<Rightarrow>
                        Inr (case ParseBool str of
                               Some b \<Rightarrow> VBool b
                             | None \<Rightarrow>
                                 (case ParseInt str of
                                    Some i \<Rightarrow> VInt64 i
                                  | None \<Rightarrow>
                                      (case ParseFloat L str of
                                         Some f \<Rightarrow> VFloat f
                                       | None \<Rightarrow> VStr str)))))
          | _ \<Rightarrow> Variable_Eval L v ctx = Inr raw"
  proof (cases "\<exists>s. raw = VStr s")
    case True
    then obtain s where raw: "raw = VStr s" by blast
    from assms raw obtain t where t: "tt_Parse L n s = Inr t"
      and v: "expression v = Some t"
      by (auto simp: Variable_Prepare_def split: sum.splits)
    from v have "Variable_Eval L v ctx =
                   (case t ctx of
                      Inl e \<Rightarrow> Inl e
                    | Inr str \<Rightarrow>
                        Inr (case ParseBool str of
                               Some b \<Rightarrow> VBool b
                             | None \<Rightarrow>
                                 (case ParseInt str of
                                    Some i \<Rightarrow> VInt64 i
                                  | None \<Rightarrow>
                                      (case ParseFloat L str of
                                         Some f \<Rightarrow> VFloat f
                                       | None \<Rightarrow> VStr str))))"
      by (simp add: Variable_Eval_def split: sum.split option.split)
    with t raw show ?thesis by simp
  next
    case False
    with assms have "expression v = None" "Value v = raw"
      by (cases raw; auto simp: Variable_Prepare_def)+
    with False show ?thesis
      by (cases raw) (simp_all add: Variable_Eval_unprepared)
  qed
next
  assume "expression u = Some t' \<and> t' ctx = Inr ''true''"
  then show "Variable_Eval L u ctx = Inr (VBool True)"
    by (simp add: Variable_Eval_def ParseBool_def)
next
  assume "expression u = Some t' \<and> t' ctx = Inr ''42''"
  then show "Variable_Eval L u ctx = Inr (VInt64 42)"
    by (simp add: Variable_Eval_def parse_defs)
next
  assume "expression u = Some t' \<and> t' ctx = Inr ''3.14'' \<and> ParseFloat L ''3.14'' = Some f"
  then show "Variable_Eval L u ctx = Inr (VFloat f)"
    by (simp add: Variable_Eval_def parse_defs)
next
  assume "expression u = Some t' \<and> t' ctx = Inr ''hello'' \<and> ParseFloat L ''hello'' = None"
  then show "Variable_Eval L u ctx = Inr (VStr ''hello'')"
    by (simp add: Variable_Eval_def parse_defs)
qed


theorem Variable_Eval_coerces_in_order_witness:
  "Variable_Eval sample_lib
     (fst (Variable_Prepare sample_lib \<lparr>Variable.Name = ''V'', Value = VStr ''true'', expression = None\<rparr>))
     Map.empty = Inr (VBool True)
   \<and> Variable_Eval sample_lib
     (fst (Variable_Prepare sample_lib \<lparr>Variable.Name = ''V'', Value = VStr ''42'', expression = None\<rparr>))
     Map.empty = Inr (VInt64 42)
   \<and> Variable_Eval sample_lib
     (fst (Variable_Prepare sample_lib \<lparr>Variable.Name = ''V'', Value = VStr ''3.14'', expression = None\<rparr>))
     Map.empty = Inr (VFloat (314 / 100))
   \<and> Variable_Eval sample_lib
     (fst (Variable_Prepare sample_lib \<lparr>Variable.Name = ''V'', Value = VStr ''hello'', expression = None\<rparr>))
     Map.empty = Inr (VStr ''hello'')
   \<and> Variable_Eval sample_lib
     (fst (Variable_Prepare sample_lib \<lparr>Variable.Name = ''V'', Value = VInt 7, expression = None\<rparr>))
     Map.empty = Inr (VInt 7)"
  using Variable_Eval_coerces_in_order
    [where L = sample_lib and n = "''V''" and raw = "VStr ''42''" and ctx = Map.empty
       and v = "fst (Variable_Prepare sample_lib
                      \<lparr>Variable.Name = ''V'', Value = VStr ''42'', expression = None\<rparr>)"
       and u = "\<lparr>Variable.Name = ''V'', Value = VStr ''3.14'',
                 expression = Some (\<lambda>ctx. Inr ''3.14'')\<rparr>"
       and t' = "\<lambda>ctx. Inr ''3.14''" and f = "314 / 100"]
  by (simp add: Variable_Prepare_def Variable_Eval_def lib_defs parse_defs)


subsection \<open>The context after a step\<close>

lemma find_append:
  "find P (xs @ ys) = (case find P xs of None \<Rightarrow> find P ys | Some x \<Rightarrow> Some x)"
  by (induction xs) simp_all

lemma Step_eval_loop_dom:
  "Step_eval_loop L ctx vs m = Inr nctx \<Longrightarrow> dom nctx = dom m \<union> Variable.Name ` set vs"
proof (induction vs arbitrary: m)
  case Nil
  then show ?case by simp
next
  case (Cons v vs)
  from Cons.prems obtain x where x: "Variable_Eval L v ctx = Inr x"
    and rest: "Step_eval_loop L ctx vs (m(Variable.Name v \<mapsto> x)) = Inr nctx"
    by (auto split: sum.splits)
  from Cons.IH [OF rest] show ?case by auto
qed

lemma Step_eval_loop_value:
  "Step_eval_loop L ctx vs m = Inr nctx \<Longrightarrow>
     nctx k = (case find (\<lambda>v. Variable.Name v = k) (rev vs) of
                 None \<Rightarrow> m k
               | Some v \<Rightarrow> (case Variable_Eval L v ctx of Inr x \<Rightarrow> Some x | Inl e \<Rightarrow> None))"
proof (induction vs arbitrary: m)
  case Nil
  then show ?case by simp
next
  case (Cons v vs)
  from Cons.prems obtain x where x: "Variable_Eval L v ctx = Inr x"
    and rest: "Step_eval_loop L ctx vs (m(Variable.Name v \<mapsto> x)) = Inr nctx"
    by (auto split: sum.splits)
  from Cons.IH [OF rest] x show ?case
    by (simp add: find_append split: option.splits)
qed

lemma Steps_Exec_Cons:
  "Steps_Exec L (s # ss) ctx =
     (if fst (snd (Step_Exec L s ctx)) = None then Steps_Exec L ss (fst (Step_Exec L s ctx))
      else Step_Exec L s ctx)"
  by (simp split: prod.splits option.splits)

text \<open>
  C2.  When the step's Variables evaluate, giving the step-local map \<open>nctx\<close>: after
  \<open>Step.Exec\<close> every key that \<open>ctx\<close> had before holds the value \<open>nctx\<close> has for it, and
  \<open>ctx\<close> has no other key; \<open>nctx\<close>, against which the command is rendered, has the
  keys of \<open>ctx\<close> and the names of the step's Variables, a declared name bound to the
  value of its last declaration; and the steps that follow run on the \<open>ctx\<close> so
  changed.
\<close>

theorem Step_Exec_context_leakage:
  assumes "snd (Step_EvalVariables L s ctx) = Inr nctx"
  shows "fst (Step_Exec L s ctx) = (\<lambda>k. if k \<in> dom ctx then nctx k else None)
       \<and> snd (Step_Exec L s ctx) = Step_run L s nctx
       \<and> dom nctx = dom ctx \<union> Variable.Name ` set (Step.Variables s)
       \<and> nctx k = (case find (\<lambda>v. Variable.Name v = k) (rev (Step.Variables s)) of
                     None \<Rightarrow> ctx k
                   | Some v \<Rightarrow>
                       (case Variable_Eval L v ctx of Inr x \<Rightarrow> Some x | Inl e \<Rightarrow> None))
       \<and> Steps_Exec L (s # ss) ctx =
           (if fst (Step_run L s nctx) = None
            then Steps_Exec L ss (\<lambda>k. if k \<in> dom ctx then nctx k else None)
            else ((\<lambda>k. if k \<in> dom ctx then nctx k else None), Step_run L s nctx))"
proof -
  from assms have loop: "Step_eval_loop L ctx (Step.Variables s) ctx = Inr nctx"
    by (simp add: Step_EvalVariables_def split: sum.splits)
  then have ev: "Step_EvalVariables L s ctx = ((\<lambda>k. if k \<in> dom ctx then nctx k else None), Inr nctx)"
    by (auto simp: Step_EvalVariables_def fun_eq_iff)
  then have ex: "Step_Exec L s ctx = ((\<lambda>k. if k \<in> dom ctx then nctx k else None), Step_run L s nctx)"
    by (simp add: Step_Exec_def)
  have c1: "fst (Step_Exec L s ctx) = (\<lambda>k. if k \<in> dom ctx then nctx k else None)"
    and c2: "snd (Step_Exec L s ctx) = Step_run L s nctx"
    by (simp_all only: ex fst_conv snd_conv)
  have c3: "dom nctx = dom ctx \<union> Variable.Name ` set (Step.Variables s)"
    by (rule Step_eval_loop_dom [OF loop])
  have c4: "nctx k = (case find (\<lambda>v. Variable.Name v = k) (rev (Step.Variables s)) of
                     None \<Rightarrow> ctx k
                   | Some v \<Rightarrow>
                       (case Variable_Eval L v ctx of Inr x \<Rightarrow> Some x | Inl e \<Rightarrow> None))"
    by (rule Step_eval_loop_value [OF loop])
  have c5: "Steps_Exec L (s # ss) ctx =
           (if fst (Step_run L s nctx) = None
            then Steps_Exec L ss (\<lambda>k. if k \<in> dom ctx then nctx k else None)
            else ((\<lambda>k. if k \<in> dom ctx then nctx k else None), Step_run L s nctx))"
    by (simp only: Steps_Exec_Cons ex fst_conv snd_conv)
  from c1 c2 c3 c4 c5 show ?thesis by (intro conjI)
qed


theorem Step_Exec_context_leakage_witness:
  "snd (Step_EvalVariables sample_lib sample_step sample_ctx)
     = Inr (projr (snd (Step_EvalVariables sample_lib sample_step sample_ctx)))
   \<and> sample_ctx ''X'' = Some (VInt 1)
   \<and> fst (Step_Exec sample_lib sample_step sample_ctx) ''X'' = Some (VInt 2)
   \<and> projr (snd (Step_EvalVariables sample_lib sample_step sample_ctx)) ''Y'' = Some (VInt 9)
   \<and> fst (Step_Exec sample_lib sample_step sample_ctx) ''Y'' = None
   \<and> map_sum id (\<lambda>m. (m ''X'', m ''Y''))
        (snd (Step_EvalVariables sample_lib plain_step
                (fst (Step_Exec sample_lib sample_step sample_ctx))))
       = Inr (Some (VInt 2), None)"
  using Step_Exec_context_leakage
    [where L = sample_lib and s = sample_step and ctx = sample_ctx and ss = "[plain_step]"
       and k = "''Y''"
       and nctx = "projr (snd (Step_EvalVariables sample_lib sample_step sample_ctx))"]
  by (simp add: step_defs pipeline_defs)

subsection \<open>A Variable that fails\<close>

lemma Step_eval_loop_error:
  "\<forall>u \<in> set pre. \<not> isl (Variable_Eval L u ctx) \<Longrightarrow> Variable_Eval L v ctx = Inl e \<Longrightarrow>
     Step_eval_loop L ctx (pre @ v # post) m = Inl e"
proof (induction pre arbitrary: m)
  case Nil
  then show ?case by simp
next
  case (Cons u pre)
  from Cons.prems(1) obtain x where x: "Variable_Eval L u ctx = Inr x"
    by (cases "Variable_Eval L u ctx") auto
  from Cons.prems(1) have "\<forall>u \<in> set pre. \<not> isl (Variable_Eval L u ctx)" by simp
  from Cons.IH [OF this Cons.prems(2)] x show ?case by simp
qed

lemma Step_error_result:
  assumes "Step_eval_loop L ctx (Step.Variables s) ctx = Inl e"
  shows "Step_EvalVariables L s ctx = (ctx, Inl e) \<and> Step_Exec L s ctx = (ctx, (Some e, []))"
  using assms by (simp add: Step_EvalVariables_def Step_Exec_def)

text \<open>
  C10.  If evaluating one of the step's Variables gives an error, then
  \<open>Step.EvalVariables\<close> returns the error of a Variable of the step (the first one
  that fails: \<open>e\<close> itself when every Variable before \<open>v\<close> evaluates), \<open>Step.Exec\<close>
  returns that error with an empty text, and the map \<open>ctx\<close> is left as it was.
\<close>

theorem Step_EvalVariables_error_keeps_context:
  assumes "v \<in> set (Step.Variables s)" and "Variable_Eval L v ctx = Inl e"
  shows "(\<exists>e' u. u \<in> set (Step.Variables s) \<and> Variable_Eval L u ctx = Inl e'
            \<and> Step_EvalVariables L s ctx = (ctx, Inl e')
            \<and> Step_Exec L s ctx = (ctx, (Some e', [])))
       \<and> ((\<exists>pre post. Step.Variables s = pre @ v # post
                      \<and> list_all (\<lambda>u. \<not> isl (Variable_Eval L u ctx)) pre)
            \<longrightarrow> Step_EvalVariables L s ctx = (ctx, Inl e)
                \<and> Step_Exec L s ctx = (ctx, (Some e, [])))"
proof (intro conjI impI)
  from assms have "\<exists>u \<in> set (Step.Variables s). isl (Variable_Eval L u ctx)"
    by (auto intro!: bexI [of _ v])
  from split_list_first_prop [OF this]
  obtain pre u post where dec: "Step.Variables s = pre @ u # post"
    and u: "isl (Variable_Eval L u ctx)"
    and pre: "\<forall>w \<in> set pre. \<not> isl (Variable_Eval L w ctx)"
    by blast
  from u obtain e' where e': "Variable_Eval L u ctx = Inl e'"
    by (cases "Variable_Eval L u ctx") auto
  from Step_eval_loop_error [OF pre e', of post ctx] dec
  have "Step_eval_loop L ctx (Step.Variables s) ctx = Inl e'" by simp
  from Step_error_result [OF this] dec e'
  show "\<exists>e' u. u \<in> set (Step.Variables s) \<and> Variable_Eval L u ctx = Inl e'
            \<and> Step_EvalVariables L s ctx = (ctx, Inl e')
            \<and> Step_Exec L s ctx = (ctx, (Some e', []))"
    by (intro exI [of _ e'] exI [of _ u]) simp
next
  assume "\<exists>pre post. Step.Variables s = pre @ v # post
                      \<and> list_all (\<lambda>u. \<not> isl (Variable_Eval L u ctx)) pre"
  then obtain pre post where dec: "Step.Variables s = pre @ v # post"
    and pre: "\<forall>u \<in> set pre. \<not> isl (Variable_Eval L u ctx)"
    by (auto simp: list_all_iff)
  from Step_eval_loop_error [OF pre assms(2), of post ctx] dec
  have "Step_eval_loop L ctx (Step.Variables s) ctx = Inl e" by simp
  from Step_error_result [OF this]
  show "Step_EvalVariables L s ctx = (ctx, Inl e)" "Step_Exec L s ctx = (ctx, (Some e, []))"
    by simp_all
qed

theorem Step_EvalVariables_error_keeps_context_witness:
  "fst (Step_EvalVariables sample_lib failing_step sample_ctx) = sample_ctx
   \<and> snd (Step_EvalVariables sample_lib failing_step sample_ctx)
       = Inl (LibError ''cannot evaluate field y'')
   \<and> fst (Step_Exec sample_lib failing_step sample_ctx) = sample_ctx
   \<and> snd (Step_Exec sample_lib failing_step sample_ctx)
       = (Some (LibError ''cannot evaluate field y''), [])"
  using Step_EvalVariables_error_keeps_context
    [where L = sample_lib and s = failing_step and ctx = sample_ctx
       and v = "\<lparr>Variable.Name = ''Z'', Value = VStr ''((.X.y))'',
                 expression = Some (\<lambda>ctx. Inl (LibError ''cannot evaluate field y''))\<rparr>"
       and e = "LibError ''cannot evaluate field y''"]
  by (simp add: step_defs pipeline_defs)

subsection \<open>What a step's Variable sees\<close>

text \<open>
  C9.  The claim lets a later Variable of a step refer to an earlier one.  The step
  declares \<open>A\<close> as \<open>alpha\<close> and then \<open>B\<close> as \<open>((.A))\<close>, in a context without \<open>A\<close>:
  \<open>Step.EvalVariables\<close> evaluates \<open>B\<close> against the context it was given, where \<open>A\<close> has
  no value, not against the copy that holds \<open>A\<close>.  \<open>Pipeline.EvalVariables\<close>, on the
  same two Variables, gives \<open>B\<close> the value of \<open>A\<close>.
\<close>

theorem Step_variable_does_not_see_earlier_one:
  "snd (Step_Prepare sample_lib chained_step) = None
   \<and> map_sum id (\<lambda>m. (m ''A'', m ''B''))
        (snd (Step_EvalVariables sample_lib (fst (Step_Prepare sample_lib chained_step)) Map.empty))
       = Inr (Some (VStr ''alpha''), Some (VStr ''<no value>''))
   \<and> snd (Pipeline_Prepare sample_lib \<lparr>Variables = chained_variables, Steps = []\<rparr>) = None
   \<and> fst (Pipeline_EvalVariables sample_lib
             (fst (Pipeline_Prepare sample_lib \<lparr>Variables = chained_variables, Steps = []\<rparr>))
             Map.empty) ''B''
       = Some (VStr ''alpha'')"
  by (simp add: step_defs pipeline_defs lib_defs parse_defs)

section \<open>Properties of start-up\<close>

text \<open>
  C6.  The claim says that a template that does not compile halts start-up.
  \<open>readConfig\<close> drops what \<open>pipeline.Prepare()\<close> returns: when the configuration is read
  and decoded and \<open>Prepare\<close> fails, \<open>readConfig\<close> still returns no error, and \<open>main\<close>
  goes on to the watch loop.
\<close>

theorem main_proceeds_after_Prepare_error:
  assumes "2 \<le> length (Args S)"
    and "ReadFile S (Args S ! 1) = Inr bb"
    and "Unmarshal S bb = Inr c"
    and "Period c = [] \<or> \<not> isl (ParseDuration S (Period c))"
    and "snd (Pipeline_Prepare L (Pipeline c)) = Some e"
  shows "snd (readConfig L S g) = None \<and> (\<exists>g' w. main L S g = Watching g' w)"
proof -
  have rc: "snd (readConfig L S g) = None"
  proof (cases "Period c = []")
    case True
    with assms(1-3) show ?thesis
      by (simp add: readConfig_def Let_def)
  next
    case False
    with assms(4) obtain dur where "ParseDuration S (Period c) = Inr dur"
      by (cases "ParseDuration S (Period c)") auto
    with False assms(1-3) show ?thesis
      by (simp add: readConfig_def Let_def)
  qed
  then obtain g' where "readConfig L S g = (g', None)"
    by (cases "readConfig L S g") simp
  then have "main L S g =
      Watching g' (NewWatcher (WatchDir (cfg g')) (globals.required g') (period g'))"
    by (simp add: main_def)
  with rc show ?thesis by blast
qed

theorem main_proceeds_after_Prepare_error_witness:
  "snd (Pipeline_Prepare sample_lib (Pipeline broken_config)) = Some (LibError ''unclosed action'')
   \<and> snd (readConfig sample_lib sample_sys initial_globals) = None
   \<and> (\<exists>g' w. main sample_lib sample_sys initial_globals = Watching g' w)"
  using main_proceeds_after_Prepare_error
    [where L = sample_lib and S = sample_sys and g = initial_globals and c = broken_config
       and bb = "''Pipeline: ...''" and e = "LibError ''unclosed action''"]
  by (simp add: sample_sys_def broken_config_def pipeline_defs lib_defs)


end
